theory Spec2Isabelle
  imports Main "HOL-Library.Word"
begin

section \<open>The host editor's data: positions, ranges, content changes\<close>

text \<open>
  A JavaScript string is a sequence of UTF-16 code units; \<open>length\<close> counts code units.
\<close>

type_synonym code_unit = "16 word"
type_synonym jsstring = "code_unit list"

definition LF :: code_unit where
  "LF = 0x0A"

text \<open>
  The editor's \<open>Position\<close>: a zero-based line and a zero-based character offset, both
  non-negative (the constructor rejects negative values).
\<close>

record Position =
  line :: nat
  character :: nat

definition isBefore :: "Position \<Rightarrow> Position \<Rightarrow> bool" where
  "isBefore p other =
     (if line p < line other then True
      else if line other < line p then False
      else character p < character other)"

definition isBeforeOrEqual :: "Position \<Rightarrow> Position \<Rightarrow> bool" where
  "isBeforeOrEqual p other =
     (if line p < line other then True
      else if line other < line p then False
      else character p \<le> character other)"

definition isAfter :: "Position \<Rightarrow> Position \<Rightarrow> bool" where
  "isAfter p other = (\<not> isBeforeOrEqual p other)"

definition isAfterOrEqual :: "Position \<Rightarrow> Position \<Rightarrow> bool" where
  "isAfterOrEqual p other = (\<not> isBefore p other)"

definition translate :: "Position \<Rightarrow> nat \<Rightarrow> Position" where
  \<comment> \<open>\<open>pos.translate({ characterDelta: d })\<close> with a non-negative delta\<close>
  "translate p characterDelta = \<lparr>line = line p, character = character p + characterDelta\<rparr>"

text \<open>
  The editor's \<open>Range\<close>. Its constructor orders the two positions, so that
  \<open>start\<close> is never after the end.
\<close>

record Range =
  start :: Position
  finish :: Position

definition mkRange :: "Position \<Rightarrow> Position \<Rightarrow> Range" where
  "mkRange a b = (if isBefore b a then \<lparr>start = b, finish = a\<rparr> else \<lparr>start = a, finish = b\<rparr>)"

definition isEmpty :: "Range \<Rightarrow> bool" where
  "isEmpty r = (start r = finish r)"

definition isSingleLine :: "Range \<Rightarrow> bool" where
  "isSingleLine r = (line (start r) = line (finish r))"

definition range_ok :: "Range \<Rightarrow> bool" where
  \<comment> \<open>what every \<open>Range\<close> built by the editor satisfies\<close>
  "range_ok r = isBeforeOrEqual (start r) (finish r)"

text \<open>\<open>TextDocumentContentChangeEvent\<close>: the overwritten range and the text put there.\<close>

record ContentChange =
  change_range :: Range
  change_text :: jsstring

section \<open>The position-delta algorithm\<close>

text \<open>\<open>arg.split('\n')\<close>: the pieces between line feeds; never an empty list.\<close>

fun split_lf :: "jsstring \<Rightarrow> jsstring list" where
  "split_lf [] = [[]]"
| "split_lf (c # cs) =
     (if c = LF then [] # split_lf cs
      else (case split_lf cs of
              [] \<Rightarrow> [[c]]
            | piece # pieces \<Rightarrow> (c # piece) # pieces))"

datatype EndArg = Text jsstring | Gap Range

definition getEndPos :: "Position \<Rightarrow> EndArg \<Rightarrow> Position" where
  "getEndPos startPos arg =
     (let (deltaLines, argLastLineLength) =
        (case arg of
           Text s \<Rightarrow>
             (let splitText = split_lf s
              in (length splitText - 1, length (last splitText)))
         | Gap r \<Rightarrow>
             (line (finish r) - line (start r),
              character (finish r) - (if isSingleLine r then character (start r) else 0)))
      in \<lparr>line = line startPos + deltaLines,
          character = argLastLineLength + (if deltaLines > 0 then 0 else character startPos)\<rparr>)"

text \<open>\<open>None\<close> is the source's \<open>undefined\<close>: the change overwrote the position.\<close>

definition getNewPos :: "Position \<Rightarrow> ContentChange \<Rightarrow> Position option" where
  "getNewPos pos contentChange =
     (if isAfterOrEqual pos (start (change_range contentChange))
         \<and> isBefore pos (finish (change_range contentChange)) then None
      else if isBefore pos (start (change_range contentChange)) then Some pos
      else
        (let gapRange = mkRange (finish (change_range contentChange)) pos;
             textEndPos = getEndPos (start (change_range contentChange))
                            (Text (change_text contentChange))
         in Some (getEndPos textEndPos (Gap gapRange))))"

text \<open>The two quantities of the specification's formula, in its own words.\<close>

definition insertedLines :: "jsstring \<Rightarrow> nat" where
  "insertedLines t = length (filter (\<lambda>c. c = LF) t)"

definition insertedLastLineLen :: "jsstring \<Rightarrow> nat" where
  "insertedLastLineLen t = length (takeWhile (\<lambda>c. c \<noteq> LF) (rev t))"

section \<open>Pairs and their decorations\<close>

text \<open>
  Modelled from the spec: the class \<open>Pair\<close> (imported from \<open>./pair\<close>, a file that is not
  among the sources). The specification gives it the fields \<open>open\<close>, \<open>close\<close> and
  \<open>isDecorated\<close>, the methods \<open>decorate()\<close> and \<open>undecorate()\<close>, and
  \<open>enclosesPos(pos)\<close>, true iff \<open>open <= pos <= close\<close>, both endpoints inclusive.
  The decoration style handed to the constructor is opaque to the tracking code and is left out;
  the field \<open>open\<close> is written \<open>openPos\<close>.
\<close>

record Pair =
  openPos :: Position
  close :: Position
  isDecorated :: bool

definition enclosesPos :: "Pair \<Rightarrow> Position \<Rightarrow> bool" where
  "enclosesPos pair pos = (isBeforeOrEqual (openPos pair) pos \<and> isBeforeOrEqual pos (close pair))"

definition decorate :: "Pair \<Rightarrow> Pair" where
  "decorate pair = pair\<lparr>isDecorated := True\<rparr>"

definition undecorate :: "Pair \<Rightarrow> Pair" where
  "undecorate pair = pair\<lparr>isDecorated := False\<rparr>"

definition newPair :: "Position \<Rightarrow> Position \<Rightarrow> Pair" where
  \<comment> \<open>the constructor: a fresh pair carries no decoration yet\<close>
  "newPair a b = \<lparr>openPos = a, close = b, isDecorated = False\<rparr>"

text \<open>
  Every call of \<open>decorate()\<close> or \<open>undecorate()\<close> on a pair is recorded, with the pair as it
  was when called, so that the calls an operation makes can be observed.
\<close>

datatype DecorationCall = Decorate Pair | Undecorate Pair

record Settings =
  languageRule :: "jsstring list"
  decorateOnlyNearestPair :: bool

text \<open>
  What the tracking code reads of a \<open>TextEditor\<close>: the cursor \<open>selection.active\<close> and the
  document's \<open>getText(range)\<close>, which belongs to the host and is taken as given.
\<close>

record TextEditor =
  selection_active :: Position
  document_getText :: "Range \<Rightarrow> jsstring"

text \<open>The object state of class \<open>Pairs\<close>, with the record of decoration calls made so far.\<close>

record Pairs =
  data :: "Pair list"
  recentlyRemovedDueToCursorMove :: "Pair list"
  settings :: Settings
  calls :: "DecorationCall list"

section \<open>Applying content changes to pairs\<close>

text \<open>
  The inner loop of \<open>applyContentChanges\<close> for one pair. The pair object is updated in place
  change by change; \<open>Inl\<close> is the jump \<open>continue outer\<close> (the pair is removed, in the state it
  had reached), \<open>Inr\<close> the pair that went through every change.
\<close>

fun applyToPair :: "Pair \<Rightarrow> ContentChange list \<Rightarrow> Pair + Pair" where
  "applyToPair pair [] = Inr pair"
| "applyToPair pair (contentChange # rest) =
     (case getNewPos (openPos pair) contentChange of
        None \<Rightarrow> Inl pair
      | Some newOpen \<Rightarrow>
          (case getNewPos (close pair) contentChange of
             None \<Rightarrow> Inl pair
           | Some newClose \<Rightarrow>
               if line newOpen \<noteq> line newClose then Inl pair
               else applyToPair (pair\<lparr>openPos := newOpen, close := newClose\<rparr>) rest))"

fun applyContentChanges :: "Pair list \<Rightarrow> ContentChange list \<Rightarrow> Pair list \<times> Pair list" where
  "applyContentChanges [] contentChanges = ([], [])"
| "applyContentChanges (pair # pairs) contentChanges =
     (let (updated, removed) = applyContentChanges pairs contentChanges
      in case applyToPair pair contentChanges of
           Inl p \<Rightarrow> (updated, p # removed)
         | Inr p \<Rightarrow> (p # updated, removed))"

datatype error = TypeError

text \<open>
  \<open>getNewPair\<close> destructures \<open>contentChanges[0]\<close>: on an empty batch that element is
  \<open>undefined\<close> and the destructuring throws a \<open>TypeError\<close>.
\<close>

definition getNewPair :: "ContentChange list \<Rightarrow> Settings \<Rightarrow> error + Pair option" where
  "getNewPair contentChanges st =
     (case contentChanges of
        [] \<Rightarrow> Inl TypeError
      | first # _ \<Rightarrow>
          Inr (if length (change_text first) = 2 \<and> isEmpty (change_range first)
                  \<and> list_ex (\<lambda>rule. change_text first = rule) (languageRule st)
               then Some (newPair (start (change_range first))
                                  (translate (start (change_range first)) 1))
               else None))"

fun removeEscapedPairs :: "Pair list \<Rightarrow> TextEditor \<Rightarrow> Pair list \<times> Pair list" where
  "removeEscapedPairs [] activeTextEditor = ([], [])"
| "removeEscapedPairs (pair # pairs) activeTextEditor =
     (let (retained, removed) = removeEscapedPairs pairs activeTextEditor
      in if enclosesPos pair (selection_active activeTextEditor)
         then (pair # retained, removed) else (retained, pair # removed))"

definition removeDecorations ::
  "Pair list \<Rightarrow> DecorationCall list \<Rightarrow> Pair list \<times> DecorationCall list" where
  "removeDecorations pairs log = (map undecorate pairs, log @ map Undecorate pairs)"

definition reapplyDecorations ::
  "Pair list \<Rightarrow> bool \<Rightarrow> DecorationCall list \<Rightarrow> Pair list \<times> DecorationCall list" where
  "reapplyDecorations pairs onlyNearest log =
     (if length pairs < 1 then (pairs, log)
      else
        (let (cleared, log1) = removeDecorations pairs log
         in if onlyNearest
            then (butlast cleared @ [decorate (last cleared)], log1 @ [Decorate (last cleared)])
            else (map decorate cleared, log1 @ map Decorate cleared)))"

section \<open>The operations of class Pairs\<close>

text \<open>
  \<open>updateGivenContentChanges\<close> has already stored the updated list and emptied the rescue
  list when \<open>getNewPair\<close> throws; \<open>Inl\<close> carries the error with the state the object is
  left in, \<open>Inr\<close> is the state after a normal return.
\<close>

definition updateGivenContentChanges ::
  "ContentChange list \<Rightarrow> TextEditor \<Rightarrow> Pairs \<Rightarrow> (error \<times> Pairs) + Pairs" where
  "updateGivenContentChanges contentChanges activeTextEditor s =
     (let (pending, _) = applyContentChanges (recentlyRemovedDueToCursorMove s) contentChanges;
          recovered = filter (\<lambda>pair. enclosesPos pair (selection_active activeTextEditor)) pending;
          (updated, removed) = applyContentChanges (data s) contentChanges;
          s1 = s\<lparr>recentlyRemovedDueToCursorMove := [], data := updated @ recovered\<rparr>
      in case getNewPair contentChanges (settings s) of
           Inl e \<Rightarrow> Inl (e, s1)
         | Inr created \<Rightarrow>
             (let data2 = data s1 @ (case created of None \<Rightarrow> [] | Some pair \<Rightarrow> [pair]);
                  (_, log1) = removeDecorations removed (calls s1);
                  (data3, log2) =
                     reapplyDecorations data2 (decorateOnlyNearestPair (settings s)) log1
              in Inr (s1\<lparr>data := data3, calls := log2\<rparr>)))"

definition stateAfter :: "(error \<times> Pairs) + Pairs \<Rightarrow> Pairs" where
  \<comment> \<open>the state of the object once the call is over, whether it returned or threw\<close>
  "stateAfter r = (case r of Inl (_, s) \<Rightarrow> s | Inr s \<Rightarrow> s)"

definition updateGivenCursorChanges :: "TextEditor \<Rightarrow> Pairs \<Rightarrow> Pairs" where
  "updateGivenCursorChanges activeTextEditor s =
     (let (retained, removed) = removeEscapedPairs (data s) activeTextEditor
      in if length removed > 0
         then
           (let (removed1, log1) = removeDecorations removed (calls s);
                (data1, log2) =
                   reapplyDecorations retained (decorateOnlyNearestPair (settings s)) log1
            in s\<lparr>recentlyRemovedDueToCursorMove := removed1, data := data1, calls := log2\<rparr>)
         else s\<lparr>recentlyRemovedDueToCursorMove := removed, data := retained\<rparr>)"

definition clear :: "Pairs \<Rightarrow> Pairs" where
  "clear s = s\<lparr>calls := calls s @ map Undecorate (data s),
               data := [],
               recentlyRemovedDueToCursorMove := []\<rparr>"

section \<open>Line of sight\<close>

text \<open>
  \<open>String.prototype.trim\<close> strips white space and line terminators from both ends.
\<close>

definition isWhiteSpace :: "code_unit \<Rightarrow> bool" where
  "isWhiteSpace c = (c \<in> set [0x0009, 0x000A, 0x000B, 0x000C, 0x000D, 0x0020, 0x00A0, 0x1680,
      0x2000, 0x2001, 0x2002, 0x2003, 0x2004, 0x2005, 0x2006, 0x2007, 0x2008, 0x2009, 0x200A,
      0x2028, 0x2029, 0x202F, 0x205F, 0x3000, 0xFEFF])"

definition trim :: "jsstring \<Rightarrow> jsstring" where
  "trim s = rev (dropWhile isWhiteSpace (rev (dropWhile isWhiteSpace s)))"

text \<open>\<open>window.activeTextEditor\<close> is \<open>undefined\<close> when no editor has the focus.\<close>

definition hasLineOfSight :: "TextEditor option \<Rightarrow> Pairs \<Rightarrow> bool" where
  "hasLineOfSight activeTextEditor s =
     (case activeTextEditor of
        None \<Rightarrow> False
      | Some editor \<Rightarrow>
          if length (data s) < 1 then False
          else
            (let cursorPos = selection_active editor;
                 textInBetween =
                   document_getText editor (mkRange cursorPos (close (last (data s))))
             in length (trim textInBetween) = 0))"

section \<open>Notions of the specification\<close>

text \<open>
  The position-delta algorithm of the specification for one position and a batch: each
  change in order, applied to the position as the earlier changes left it. In the source it
  is the inner loop of \<open>applyContentChanges\<close>, seen from one endpoint of the pair.
\<close>

fun positionDelta :: "Position \<Rightarrow> ContentChange list \<Rightarrow> Position option" where
  "positionDelta p [] = Some p"
| "positionDelta p (c # cs) =
     (case getNewPos p c of None \<Rightarrow> None | Some q \<Rightarrow> positionDelta q cs)"

definition strictlyInside :: "Position \<Rightarrow> Range \<Rightarrow> bool" where
  \<comment> \<open>strictly inside the range: after its start and before its end\<close>
  "strictlyInside p r = (isAfter p (start r) \<and> isBefore p (finish r))"

definition overwrites :: "ContentChange \<Rightarrow> Position \<Rightarrow> bool" where
  \<comment> \<open>\<open>start <= p < end\<close>: the start of the range counts, its end does not\<close>
  "overwrites c p =
     (isAfterOrEqual p (start (change_range c)) \<and> isBefore p (finish (change_range c)))"

text \<open>
  The two endpoints of a pair; the pairs that come through a batch; the pair a batch creates;
  the pairs of the rescue list that a batch brings back for a cursor.
\<close>

definition ends :: "Pair \<Rightarrow> Position \<times> Position" where
  "ends pair = (openPos pair, close pair)"

definition survivor :: "Pair \<Rightarrow> ContentChange list \<Rightarrow> Pair option" where
  "survivor pair contentChanges =
     (case applyToPair pair contentChanges of Inl _ \<Rightarrow> None | Inr p \<Rightarrow> Some p)"

definition created :: "ContentChange list \<Rightarrow> Settings \<Rightarrow> Pair list" where
  "created contentChanges st =
     (case getNewPair contentChanges st of Inr (Some pair) \<Rightarrow> [pair] | _ \<Rightarrow> [])"

definition rescued :: "Pair list \<Rightarrow> ContentChange list \<Rightarrow> Position \<Rightarrow> Pair list" where
  "rescued buffer contentChanges cursor =
     filter (\<lambda>pair. enclosesPos pair cursor)
       (List.map_filter (\<lambda>pair. survivor pair contentChanges) buffer)"

text \<open>
  Where the third branch of \<open>getNewPos\<close> puts a position that is not before the end of the
  change's range: the end of the inserted text, followed by the gap up to the position.
\<close>

definition shifted :: "ContentChange \<Rightarrow> Position \<Rightarrow> Position" where
  "shifted c p =
     getEndPos (getEndPos (start (change_range c)) (Text (change_text c)))
       (Gap \<lparr>start = finish (change_range c), finish = p\<rparr>)"

text \<open>
  The pair update of the specification for one change: the pair is dropped when a side is
  deleted or the two new sides are on different lines.
\<close>

definition dropsPair :: "ContentChange \<Rightarrow> Pair \<Rightarrow> bool" where
  "dropsPair c pair =
     (case getNewPos (openPos pair) c of
        None \<Rightarrow> True
      | Some newOpen \<Rightarrow>
          (case getNewPos (close pair) c of
             None \<Rightarrow> True
           | Some newClose \<Rightarrow> line newOpen \<noteq> line newClose))"

text \<open>Short names for the inputs of the examples.\<close>

definition pos :: "nat \<Rightarrow> nat \<Rightarrow> Position" where
  "pos l c = \<lparr>line = l, character = c\<rparr>"

definition insertion :: "Position \<Rightarrow> jsstring \<Rightarrow> ContentChange" where
  \<comment> \<open>a change with an empty range: text typed or pasted at \<open>q\<close>\<close>
  "insertion q t = \<lparr>change_range = \<lparr>start = q, finish = q\<rparr>, change_text = t\<rparr>"

definition cursorAt :: "Position \<Rightarrow> TextEditor" where
  "cursorAt p = \<lparr>selection_active = p, document_getText = (\<lambda>r. [])\<rparr>"

definition parens :: jsstring where
  "parens = [0x28, 0x29]"

definition initial :: "Settings \<Rightarrow> Pairs" where
  \<comment> \<open>the state the constructor of \<open>Pairs\<close> leaves\<close>
  "initial st = \<lparr>data = [], recentlyRemovedDueToCursorMove = [], settings = st, calls = []\<rparr>"

section \<open>Proper nesting and reachable states\<close>

text \<open>
  The nesting invariant in the words of the specification: consecutive pairs satisfy
  \<open>P\<^sub>i.open < P\<^sub>i\<^sub>+\<^sub>1.open < P\<^sub>i\<^sub>+\<^sub>1.close < P\<^sub>i.close\<close>.
\<close>

fun properlyNested :: "Pair list \<Rightarrow> bool" where
  "properlyNested [] = True"
| "properlyNested [p] = True"
| "properlyNested (p # q # rest) =
     (isBefore (openPos p) (openPos q) \<and> isBefore (openPos q) (close q)
      \<and> isBefore (close q) (close p) \<and> properlyNested (q # rest))"

definition nestedEnds :: "Position \<times> Position \<Rightarrow> Position \<times> Position \<Rightarrow> bool" where
  \<comment> \<open>the second pair of endpoints lies strictly inside the first\<close>
  "nestedEnds outer inner =
     (isBefore (fst outer) (fst inner) \<and> isBefore (fst inner) (snd inner)
      \<and> isBefore (snd inner) (snd outer))"

text \<open>
  A condition on a content update: the pair it creates, if any, lies strictly inside the last
  of the pairs it keeps or rescues (or there is none). Typing a trigger pair at a cursor that
  is inside the most nested pair is the case in point.
\<close>

definition newPairInside :: "ContentChange list \<Rightarrow> TextEditor \<Rightarrow> Pairs \<Rightarrow> bool" where
  "newPairInside cs ed s =
     (case created cs (settings s) of
        [] \<Rightarrow> True
      | pair # _ \<Rightarrow>
          (let kept = List.map_filter (\<lambda>p. survivor p cs) (data s)
                      @ rescued (recentlyRemovedDueToCursorMove s) cs (selection_active ed)
           in kept = [] \<or> nestedEnds (ends (last kept)) (ends pair)))"

definition anyBatch :: "ContentChange list \<Rightarrow> TextEditor \<Rightarrow> Pairs \<Rightarrow> bool" where
  "anyBatch cs ed s = True"

text \<open>
  The states an object of class \<open>Pairs\<close> reaches from its construction by content updates
  (those the condition \<open>allowed\<close> admits), cursor updates and clears. A content update that
  throws leaves the object in the state reached at the throw.
\<close>

inductive reachableBy ::
  "(ContentChange list \<Rightarrow> TextEditor \<Rightarrow> Pairs \<Rightarrow> bool) \<Rightarrow> Settings \<Rightarrow> Pairs \<Rightarrow> bool"
  for allowed :: "ContentChange list \<Rightarrow> TextEditor \<Rightarrow> Pairs \<Rightarrow> bool" and st :: Settings
where
  constructed: "reachableBy allowed st (initial st)"
| contentChange:
    "reachableBy allowed st s \<Longrightarrow> allowed cs ed s \<Longrightarrow>
       reachableBy allowed st (stateAfter (updateGivenContentChanges cs ed s))"
| cursorChange:
    "reachableBy allowed st s \<Longrightarrow> reachableBy allowed st (updateGivenCursorChanges ed s)"
| cleared:
    "reachableBy allowed st s \<Longrightarrow> reachableBy allowed st (clear s)"

text \<open>
  The invariant behind the nesting of the tracked pairs: the tracked pairs followed by the
  rescue list are nested, each pair strictly inside every pair before it.
\<close>

definition nestingInv :: "Pairs \<Rightarrow> bool" where
  "nestingInv s =
     sorted_wrt nestedEnds (map ends (data s @ recentlyRemovedDueToCursorMove s))"

section \<open>Properties of the position-delta algorithm\<close>

lemma split_lf_nonempty: "split_lf s \<noteq> []"
  by (induction s) (auto split: list.splits)

lemma length_split_lf: "length (split_lf s) = Suc (insertedLines s)"
  by (induction s) (auto simp: insertedLines_def split: list.splits)

lemma single_piece: "(length (split_lf s) = 1) = (LF \<notin> set s)"
  by (auto simp: length_split_lf insertedLines_def filter_empty_conv)

lemma last_split_lf_eq: "last (split_lf s) = rev (takeWhile (\<lambda>c. c \<noteq> LF) (rev s))"
proof (induction s)
  case Nil
  show ?case by simp
next
  case (Cons c cs)
  obtain piece pieces where sp: "split_lf cs = piece # pieces"
    using split_lf_nonempty [of cs] by (cases "split_lf cs") auto
  have one: "(pieces = []) = (LF \<notin> set cs)"
    using single_piece [of cs] sp by simp
  show ?case
  proof (cases "LF \<in> set cs")
    case True
    then have tw: "takeWhile (\<lambda>c. c \<noteq> LF) (rev cs @ [c]) = takeWhile (\<lambda>c. c \<noteq> LF) (rev cs)"
      by (simp add: takeWhile_append1)
    from True one have "pieces \<noteq> []" by simp
    then show ?thesis using Cons sp tw by simp
  next
    case False
    then have all: "\<forall>x\<in>set (rev cs). x \<noteq> LF" by auto
    then have tw: "takeWhile (\<lambda>c. c \<noteq> LF) (rev cs) = rev cs"
      by (simp add: takeWhile_eq_all_conv)
    have tw2: "takeWhile (\<lambda>c. c \<noteq> LF) (rev cs @ [c]) = rev cs @ takeWhile (\<lambda>c. c \<noteq> LF) [c]"
      using all by (intro takeWhile_append2) auto
    from False one have "pieces = []" by simp
    then show ?thesis using Cons sp tw tw2 by simp
  qed
qed

lemma last_split_lf: "length (last (split_lf s)) = insertedLastLineLen s"
  by (simp add: last_split_lf_eq insertedLastLineLen_def)

lemma getEndPos_Text:
  "getEndPos startPos (Text s) =
     \<lparr>line = line startPos + insertedLines s,
      character = insertedLastLineLen s + (if insertedLines s > 0 then 0 else character startPos)\<rparr>"
  by (simp add: getEndPos_def Let_def length_split_lf last_split_lf)

lemma range_ok_after:
  "range_ok r \<Longrightarrow> isAfterOrEqual p (finish r) \<Longrightarrow> \<not> isBefore p (start r)"
  by (auto simp: range_ok_def isAfterOrEqual_def isBefore_def isBeforeOrEqual_def split: if_splits)

text \<open>
  Claim C1. For a position \<open>p\<close> at or after the end of a change's range, \<open>getNewPos\<close> returns
  the position on line \<open>start.line + insertedLines + (p.line - end.line)\<close>; its character is
  \<open>p.character\<close> when \<open>p\<close> is on a later line than the range end, and otherwise
  \<open>insertedLastLineLen + (p.character - end.character)\<close>, to which \<open>start.character\<close> is
  added when the inserted text has no line break. The arithmetic is stated over the integers,
  so that no subtraction is cut off at zero. The range is one the editor builds: its start is
  not after its end.
\<close>

theorem getNewPos_after_change:
  assumes ok: "range_ok (change_range c)"
      and after: "isAfterOrEqual p (finish (change_range c))"
  shows "\<exists>q. getNewPos p c = Some q
           \<and> int (line q) = int (line (start (change_range c))) + int (insertedLines (change_text c))
                 + (int (line p) - int (line (finish (change_range c))))
           \<and> int (character q) =
               (if line p > line (finish (change_range c)) then int (character p)
                else if insertedLines (change_text c) > 0
                  then int (insertedLastLineLen (change_text c))
                         + (int (character p) - int (character (finish (change_range c))))
                  else int (character (start (change_range c)))
                         + int (insertedLastLineLen (change_text c))
                         + (int (character p) - int (character (finish (change_range c)))))"
proof -
  let ?s = "start (change_range c)" and ?e = "finish (change_range c)"
  have nb: "\<not> isBefore p ?s" using range_ok_after [OF ok after] .
  have ne: "\<not> isBefore p ?e" using after by (simp add: isAfterOrEqual_def)
  have gap: "mkRange ?e p = \<lparr>start = ?e, finish = p\<rparr>"
    using ne by (simp add: mkRange_def)
  have le: "line ?e \<le> line p" and ch: "line p = line ?e \<Longrightarrow> character ?e \<le> character p"
    using ne by (auto simp: isBefore_def split: if_splits)
  have eq: "getNewPos p c =
      Some (getEndPos (getEndPos ?s (Text (change_text c))) (Gap \<lparr>start = ?e, finish = p\<rparr>))"
    using nb ne gap by (simp add: getNewPos_def Let_def)
  show ?thesis
    unfolding eq getEndPos_Text
    using le ch by (auto simp: getEndPos_def isSingleLine_def)
qed

theorem getNewPos_after_change_witness:
  "range_ok \<lparr>start = \<lparr>line = 0, character = 2\<rparr>, finish = \<lparr>line = 0, character = 3\<rparr>\<rparr>
   \<and> isAfterOrEqual \<lparr>line = 0, character = 5\<rparr> \<lparr>line = 0, character = 3\<rparr>
   \<and> getNewPos \<lparr>line = 0, character = 5\<rparr>
        \<lparr>change_range = \<lparr>start = \<lparr>line = 0, character = 2\<rparr>, finish = \<lparr>line = 0, character = 3\<rparr>\<rparr>,
         change_text = [0x61, LF, 0x62, 0x63]\<rparr> = Some \<lparr>line = 1, character = 4\<rparr>"
proof -
  let ?r = "\<lparr>start = \<lparr>line = 0, character = 2\<rparr>, finish = \<lparr>line = 0, character = 3\<rparr>\<rparr>"
  let ?c = "\<lparr>change_range = ?r, change_text = [0x61, LF, 0x62, 0x63]\<rparr>"
  have ok: "range_ok (change_range ?c)" by (simp add: range_ok_def isBeforeOrEqual_def)
  have after: "isAfterOrEqual \<lparr>line = 0, character = 5\<rparr> (finish (change_range ?c))"
    by (simp add: isAfterOrEqual_def isBefore_def)
  have lf: "(0x61 :: code_unit) \<noteq> LF" "(0x62 :: code_unit) \<noteq> LF" "(0x63 :: code_unit) \<noteq> LF"
    by (simp_all add: LF_def)
  from getNewPos_after_change [OF ok after]
  obtain q where q: "getNewPos \<lparr>line = 0, character = 5\<rparr> ?c = Some q"
    and l: "int (line q) = 1" and ch: "int (character q) = 4"
    using lf by (auto simp: insertedLines_def insertedLastLineLen_def)
  then have "q = \<lparr>line = 1, character = 4\<rparr>" by (cases q) simp
  with q ok after show ?thesis by simp
qed

section \<open>Deletion of a position\<close>

lemma getNewPos_None: "(getNewPos p c = None) = overwrites c p"
  by (simp add: getNewPos_def overwrites_def Let_def)

lemma positionDelta_append:
  "positionDelta p (pre @ post) =
     (case positionDelta p pre of None \<Rightarrow> None | Some q \<Rightarrow> positionDelta q post)"
  by (induction pre arbitrary: p) (auto split: option.splits)

lemma positionDelta_None:
  "(positionDelta p cs = None) =
     (\<exists>pre c post q. cs = pre @ c # post \<and> positionDelta p pre = Some q \<and> overwrites c q)"
proof (induction cs arbitrary: p)
  case Nil
  show ?case by simp
next
  case (Cons c cs)
  show ?case
  proof (cases "getNewPos p c")
    case None
    then have "overwrites c p" by (simp add: getNewPos_None [symmetric])
    then have "c # cs = [] @ c # cs \<and> positionDelta p [] = Some p \<and> overwrites c p" by simp
    then have "\<exists>pre c' post q. c # cs = pre @ c' # post \<and> positionDelta p pre = Some q \<and> overwrites c' q"
      by blast
    with None show ?thesis by simp
  next
    case (Some q)
    then have no: "\<not> overwrites c p" by (simp add: getNewPos_None [symmetric])
    have "(\<exists>pre c' post r. c # cs = pre @ c' # post \<and> positionDelta p pre = Some r \<and> overwrites c' r)
        = (\<exists>pre c' post r. cs = pre @ c' # post \<and> positionDelta q pre = Some r \<and> overwrites c' r)"
      (is "?L = ?R")
    proof
      assume ?L
      then obtain pre c' post r where h: "c # cs = pre @ c' # post" "positionDelta p pre = Some r" "overwrites c' r"
        by blast
      show ?R
      proof (cases pre)
        case Nil
        with h no show ?thesis by simp
      next
        case (Cons a pre')
        with h Some have "cs = pre' @ c' # post" "positionDelta q pre' = Some r" by auto
        with h(3) show ?thesis by blast
      qed
    next
      assume ?R
      then obtain pre c' post r where h: "cs = pre @ c' # post" "positionDelta q pre = Some r" "overwrites c' r"
        by blast
      then have "c # cs = (c # pre) @ c' # post" "positionDelta p (c # pre) = Some r"
        using Some by auto
      with h(3) show ?L by blast
    qed
    with Some Cons [of q] show ?thesis by simp
  qed
qed

lemma applyToPair_positionDelta:
  "applyToPair p cs = Inr p' \<Longrightarrow>
     positionDelta (openPos p) cs = Some (openPos p') \<and> positionDelta (close p) cs = Some (close p')
     \<and> isDecorated p' = isDecorated p"
proof (induction cs arbitrary: p)
  case Nil
  then show ?case by simp
next
  case (Cons c cs)
  from Cons.prems obtain o' cl where
    o: "getNewPos (openPos p) c = Some o'" and cl: "getNewPos (close p) c = Some cl"
    and l: "line o' = line cl"
    and rest: "applyToPair (p\<lparr>openPos := o', close := cl\<rparr>) cs = Inr p'"
    by (auto split: option.splits if_splits)
  from Cons.IH [OF rest] o cl show ?case by simp
qed

text \<open>
  Claim C6, as the source has it. \<open>getNewPos\<close> reports a position deleted exactly when
  \<open>start <= p < end\<close>: the start of a non-empty overwritten range is deleted too, the end of
  the range and every position outside it are not. Over a batch, the position is deleted
  exactly when some change overwrites the position as the changes before it left it.
\<close>

theorem deleted_iff_overwritten:
  "(getNewPos p c = None) = overwrites c p
   \<and> (positionDelta p cs = None) =
       (\<exists>pre c' post q. cs = pre @ c' # post \<and> positionDelta p pre = Some q \<and> overwrites c' q)"
  using getNewPos_None [of p c] positionDelta_None [of p cs] by simp

text \<open>
  The claim as written fails at the start of a non-empty range: the position is not strictly
  inside the range, and it is reported deleted.
\<close>

theorem getNewPos_start_deleted:
  "getNewPos \<lparr>line = 0, character = 0\<rparr>
      \<lparr>change_range = \<lparr>start = \<lparr>line = 0, character = 0\<rparr>, finish = \<lparr>line = 0, character = 1\<rparr>\<rparr>,
       change_text = []\<rparr> = None
   \<and> \<not> strictlyInside \<lparr>line = 0, character = 0\<rparr>
          \<lparr>start = \<lparr>line = 0, character = 0\<rparr>, finish = \<lparr>line = 0, character = 1\<rparr>\<rparr>"
  by (simp add: getNewPos_def strictlyInside_def isAfter_def isAfterOrEqual_def isBefore_def
        isBeforeOrEqual_def)

section \<open>Clearing\<close>

text \<open>
  Claim C8. The first \<open>clear\<close> calls \<open>undecorate()\<close> once on every tracked pair, in the
  order of the list, and makes no other decoration call; after it no pair is tracked and the
  rescue list is empty. \<open>clear\<close> twice is \<open>clear\<close> once: the second call changes nothing and
  adds no call to the record of decoration calls.
\<close>

theorem clear_idempotent:
  "calls (clear s) = calls s @ map Undecorate (data s)
   \<and> clear (clear s) = clear s
   \<and> data (clear s) = [] \<and> recentlyRemovedDueToCursorMove (clear s) = []
   \<and> settings (clear s) = settings s
   \<and> calls (clear (clear s)) = calls (clear s)"
  by (simp add: clear_def)

section \<open>Line of sight\<close>

text \<open>
  Claim C10. Without an active text editor \<open>hasLineOfSight\<close> is false whatever is tracked;
  in particular it is false in a state that tracks a pair.
\<close>

theorem hasLineOfSight_no_editor:
  "\<not> hasLineOfSight None s
   \<and> data (s\<lparr>data := [newPair \<lparr>line = 0, character = 0\<rparr> \<lparr>line = 0, character = 1\<rparr>]\<rparr>) \<noteq> []
   \<and> \<not> hasLineOfSight None
         (s\<lparr>data := [newPair \<lparr>line = 0, character = 0\<rparr> \<lparr>line = 0, character = 1\<rparr>]\<rparr>)"
  by (simp add: hasLineOfSight_def)

lemma trim_empty: "(trim s = []) = (\<forall>c\<in>set s. isWhiteSpace c)"
proof -
  have a: "(dropWhile isWhiteSpace s = []) = (\<forall>c\<in>set s. isWhiteSpace c)"
    by (rule dropWhile_eq_Nil_conv)
  have b: "(dropWhile isWhiteSpace (rev (dropWhile isWhiteSpace s)) = []) = (dropWhile isWhiteSpace s = [])"
  proof (cases "dropWhile isWhiteSpace s")
    case Nil
    show ?thesis unfolding Nil by simp
  next
    case (Cons x xs)
    then have "\<not> isWhiteSpace x" using hd_dropWhile [of isWhiteSpace s] by simp
    then have "\<not> (\<forall>c\<in>set (rev (x # xs)). isWhiteSpace c)" by auto
    then have "dropWhile isWhiteSpace (rev (x # xs)) \<noteq> []"
      unfolding dropWhile_eq_Nil_conv by blast
    with Cons show ?thesis by simp
  qed
  show ?thesis unfolding trim_def using a b by simp
qed

text \<open>
  Claim C7. With an active text editor (the cursor and the document text are its own),
  \<open>hasLineOfSight\<close> is true iff some pair is tracked and the text of the range between the
  cursor and the close of the last, most nested pair consists of white space only.
\<close>

theorem hasLineOfSight_iff:
  "hasLineOfSight (Some editor) s =
     (data s \<noteq> []
      \<and> (\<forall>c \<in> set (document_getText editor
                      (mkRange (selection_active editor) (close (last (data s))))).
            isWhiteSpace c))"
  by (cases "data s") (simp_all add: hasLineOfSight_def Let_def trim_empty)


theorem hasLineOfSight_iff_witness:
  "hasLineOfSight
     (Some \<lparr>selection_active = \<lparr>line = 0, character = 1\<rparr>,
            document_getText = (\<lambda>r. if r = \<lparr>start = \<lparr>line = 0, character = 1\<rparr>,
                                               finish = \<lparr>line = 0, character = 3\<rparr>\<rparr>
                                      then [0x20, 0x09] else [0x78])\<rparr>)
     \<lparr>data = [newPair \<lparr>line = 0, character = 0\<rparr> \<lparr>line = 0, character = 3\<rparr>],
      recentlyRemovedDueToCursorMove = [],
      settings = \<lparr>languageRule = [], decorateOnlyNearestPair = True\<rparr>,
      calls = []\<rparr>"
  unfolding hasLineOfSight_iff
  by (simp add: newPair_def mkRange_def isBefore_def isWhiteSpace_def)

section \<open>The state after an update\<close>

lemma removeEscapedPairs_filter:
  "removeEscapedPairs ps ed =
     (filter (\<lambda>p. enclosesPos p (selection_active ed)) ps,
      filter (\<lambda>p. \<not> enclosesPos p (selection_active ed)) ps)"
  by (induction ps) (auto simp: Let_def)

lemma fst_applyContentChanges:
  "fst (applyContentChanges ps cs) = List.map_filter (\<lambda>p. survivor p cs) ps"
  by (induction ps)
     (auto simp: Let_def survivor_def List.map_filter_simps split: prod.splits sum.splits)

lemma ends_undecorate [simp]: "ends (undecorate p) = ends p"
  by (simp add: ends_def undecorate_def)

lemma ends_decorate [simp]: "ends (decorate p) = ends p"
  by (simp add: ends_def decorate_def)

lemma ends_removeDecorations: "map ends (fst (removeDecorations ps log)) = map ends ps"
  by (simp add: removeDecorations_def comp_def)

lemma map_ends_butlast_last:
  "ps \<noteq> [] \<Longrightarrow> map ends (butlast ps @ [decorate (last ps)]) = map ends ps"
proof -
  assume ne: "ps \<noteq> []"
  have "map ends (butlast ps @ [decorate (last ps)]) = map ends (butlast ps @ [last ps])"
    by simp
  also have "\<dots> = map ends ps" using ne by simp
  finally show ?thesis .
qed

lemma ends_reapplyDecorations:
  "map ends (fst (reapplyDecorations ps f log)) = map ends ps"
proof (cases "ps = []")
  case True
  then show ?thesis by (simp add: reapplyDecorations_def)
next
  case False
  then have ne: "map undecorate ps \<noteq> []" by simp
  show ?thesis
    using False map_ends_butlast_last [OF ne]
    by (simp add: reapplyDecorations_def removeDecorations_def comp_def del: map_append)
qed

lemma content_update_buffer:
  "recentlyRemovedDueToCursorMove (stateAfter (updateGivenContentChanges cs ed s)) = []"
  by (simp add: updateGivenContentChanges_def stateAfter_def Let_def
        split: prod.splits sum.splits)

lemma content_update_settings:
  "settings (stateAfter (updateGivenContentChanges cs ed s)) = settings s"
  by (simp add: updateGivenContentChanges_def stateAfter_def Let_def
        split: prod.splits sum.splits)

lemma content_update_data:
  "map ends (data (stateAfter (updateGivenContentChanges cs ed s))) =
     map ends (List.map_filter (\<lambda>p. survivor p cs) (data s)
               @ rescued (recentlyRemovedDueToCursorMove s) cs (selection_active ed)
               @ created cs (settings s))"
proof -
  obtain pending x where a: "applyContentChanges (recentlyRemovedDueToCursorMove s) cs = (pending, x)"
    by (cases "applyContentChanges (recentlyRemovedDueToCursorMove s) cs")
  obtain updated removed where b: "applyContentChanges (data s) cs = (updated, removed)"
    by (cases "applyContentChanges (data s) cs")
  have p: "pending = List.map_filter (\<lambda>p. survivor p cs) (recentlyRemovedDueToCursorMove s)"
    using fst_applyContentChanges [of "recentlyRemovedDueToCursorMove s" cs] a by simp
  have u: "updated = List.map_filter (\<lambda>p. survivor p cs) (data s)"
    using fst_applyContentChanges [of "data s" cs] b by simp
  show ?thesis
  proof (cases "getNewPair cs (settings s)")
    case (Inl e)
    then show ?thesis
      using a b p u
      by (simp add: updateGivenContentChanges_def stateAfter_def Let_def rescued_def created_def)
  next
    case (Inr np)
    obtain r1 log1 where c: "removeDecorations removed (calls s) = (r1, log1)"
      by (cases "removeDecorations removed (calls s)")
    let ?d2 = "updated @ filter (\<lambda>pair. enclosesPos pair (selection_active ed)) pending
                @ (case np of None \<Rightarrow> [] | Some pair \<Rightarrow> [pair])"
    obtain d3 log2 where d: "reapplyDecorations ?d2 (decorateOnlyNearestPair (settings s)) log1 = (d3, log2)"
      by (cases "reapplyDecorations ?d2 (decorateOnlyNearestPair (settings s)) log1")
    have e: "map ends d3 = map ends ?d2"
      using ends_reapplyDecorations [of ?d2 "decorateOnlyNearestPair (settings s)" log1] d by simp
    have cr: "created cs (settings s) = (case np of None \<Rightarrow> [] | Some pair \<Rightarrow> [pair])"
      using Inr by (simp add: created_def)
    have "data (stateAfter (updateGivenContentChanges cs ed s)) = d3"
      using a b c d Inr
      by (simp add: updateGivenContentChanges_def stateAfter_def Let_def)
    then show ?thesis using e p u cr by (simp add: rescued_def)
  qed
qed

lemma cursor_update_buffer:
  "recentlyRemovedDueToCursorMove (updateGivenCursorChanges ed s) =
     map undecorate (filter (\<lambda>p. \<not> enclosesPos p (selection_active ed)) (data s))"
  by (simp add: updateGivenCursorChanges_def removeEscapedPairs_filter Let_def
        removeDecorations_def split: prod.splits)

lemma cursor_update_data:
  "map ends (data (updateGivenCursorChanges ed s)) =
     map ends (filter (\<lambda>p. enclosesPos p (selection_active ed)) (data s))"
proof -
  let ?ret = "filter (\<lambda>p. enclosesPos p (selection_active ed)) (data s)"
  let ?rem = "filter (\<lambda>p. \<not> enclosesPos p (selection_active ed)) (data s)"
  show ?thesis
  proof (cases "?rem = []")
    case True
    then show ?thesis
      by (simp add: updateGivenCursorChanges_def removeEscapedPairs_filter Let_def)
  next
    case False
    obtain r1 log1 where c: "removeDecorations ?rem (calls s) = (r1, log1)"
      by (cases "removeDecorations ?rem (calls s)")
    obtain d1 log2 where d: "reapplyDecorations ?ret (decorateOnlyNearestPair (settings s)) log1 = (d1, log2)"
      by (cases "reapplyDecorations ?ret (decorateOnlyNearestPair (settings s)) log1")
    have "map ends d1 = map ends ?ret"
      using ends_reapplyDecorations [of ?ret "decorateOnlyNearestPair (settings s)" log1] d by simp
    moreover have "data (updateGivenCursorChanges ed s) = d1"
      using False c d
      by (simp add: updateGivenCursorChanges_def removeEscapedPairs_filter Let_def)
    ultimately show ?thesis by simp
  qed
qed

lemma cursor_update_settings: "settings (updateGivenCursorChanges ed s) = settings s"
  by (simp add: updateGivenCursorChanges_def Let_def split: prod.splits)

section \<open>Creation of a new pair\<close>

lemma getNewPair_Some:
  "(getNewPair cs st = Inr (Some p)) =
     (\<exists>first rest. cs = first # rest
        \<and> length (change_text first) = 2 \<and> isEmpty (change_range first)
        \<and> change_text first \<in> set (languageRule st)
        \<and> p = newPair (start (change_range first)) (translate (start (change_range first)) 1))"
  by (cases cs) (auto simp: getNewPair_def list_ex_iff)

text \<open>
  Claim C3, as the source has it. \<open>getNewPair\<close> looks at the first change of the batch only:
  a pair is created iff the batch is not empty and its first change has an empty range and a
  text of exactly two code units that is one of the trigger pairs, however many changes
  follow. The pair spans the insertion point and the position one character to its right, and
  the update puts it last in the list, after the pairs kept and the pairs rescued.
\<close>

theorem new_pair_from_first_change:
  "(getNewPair cs st = Inr (Some p)) =
     (\<exists>first rest. cs = first # rest
        \<and> length (change_text first) = 2 \<and> isEmpty (change_range first)
        \<and> change_text first \<in> set (languageRule st)
        \<and> p = newPair (start (change_range first)) (translate (start (change_range first)) 1))
   \<and> map ends (data (stateAfter (updateGivenContentChanges cs ed s))) =
       map ends (List.map_filter (\<lambda>p. survivor p cs) (data s)
                 @ rescued (recentlyRemovedDueToCursorMove s) cs (selection_active ed))
       @ (case getNewPair cs (settings s) of Inr (Some pair) \<Rightarrow> [ends pair] | _ \<Rightarrow> [])"
proof -
  have "map ends (created cs (settings s)) =
          (case getNewPair cs (settings s) of Inr (Some pair) \<Rightarrow> [ends pair] | _ \<Rightarrow> [])"
    by (simp add: created_def split: sum.splits option.splits)
  then show ?thesis
    using getNewPair_Some [of cs st p] content_update_data [of cs ed s] by simp
qed

text \<open>
  The claim as written fails on a batch of two changes whose first change types a trigger
  pair: a pair is created.
\<close>

theorem new_pair_from_batch_of_two:
  "data (stateAfter (updateGivenContentChanges
       [\<lparr>change_range = \<lparr>start = \<lparr>line = 0, character = 0\<rparr>, finish = \<lparr>line = 0, character = 0\<rparr>\<rparr>,
         change_text = [0x28, 0x29]\<rparr>,
        \<lparr>change_range = \<lparr>start = \<lparr>line = 1, character = 0\<rparr>, finish = \<lparr>line = 1, character = 0\<rparr>\<rparr>,
         change_text = [0x78]\<rparr>]
       \<lparr>selection_active = \<lparr>line = 0, character = 1\<rparr>, document_getText = (\<lambda>r. [])\<rparr>
       \<lparr>data = [], recentlyRemovedDueToCursorMove = [],
        settings = \<lparr>languageRule = [[0x28, 0x29]], decorateOnlyNearestPair = True\<rparr>,
        calls = []\<rparr>))
   = [\<lparr>openPos = \<lparr>line = 0, character = 0\<rparr>, close = \<lparr>line = 0, character = 1\<rparr>,
       isDecorated = True\<rparr>]"
  by (simp add: updateGivenContentChanges_def stateAfter_def getNewPair_def isEmpty_def
        newPair_def translate_def removeDecorations_def reapplyDecorations_def Let_def
        decorate_def undecorate_def)

section \<open>The rescue list\<close>

lemma enclosesPos_ends: "ends p = ends q \<Longrightarrow> enclosesPos p x = enclosesPos q x"
  by (simp add: ends_def enclosesPos_def)

lemma cursor_update_ignores_buffer:
  "updateGivenCursorChanges ed (s\<lparr>recentlyRemovedDueToCursorMove := b\<rparr>) =
     updateGivenCursorChanges ed s"
  by (simp add: updateGivenCursorChanges_def Let_def split: prod.splits)

lemma cursor_update_data_encloses:
  assumes "p \<in> set (data (updateGivenCursorChanges ed s))"
  shows "\<exists>q \<in> set (data s). ends q = ends p \<and> enclosesPos q (selection_active ed)"
proof -
  from assms have "ends p \<in> set (map ends (data (updateGivenCursorChanges ed s)))" by simp
  then have "ends p \<in> set (map ends (filter (\<lambda>p. enclosesPos p (selection_active ed)) (data s)))"
    by (simp only: cursor_update_data)
  then show ?thesis by auto
qed

lemma cursor_update_buffer_from_data:
  assumes "p \<in> set (recentlyRemovedDueToCursorMove (updateGivenCursorChanges ed s))"
  shows "\<exists>q \<in> set (data s). ends q = ends p \<and> \<not> enclosesPos q (selection_active ed)"
  using assms unfolding cursor_update_buffer by auto

text \<open>
  Claim C9. A cursor update sets the rescue list to the pairs it removed itself, whatever
  the list held before (and to the empty list when it removed none). So after a second
  cursor update every pair still held, tracked or in the rescue list, is one that enclosed
  the first cursor: a pair the first update removed is in neither list any more.
\<close>

theorem cursor_update_overwrites_rescue_list:
  "recentlyRemovedDueToCursorMove (updateGivenCursorChanges ed1 s) =
     map undecorate (filter (\<lambda>p. \<not> enclosesPos p (selection_active ed1)) (data s))
   \<and> updateGivenCursorChanges ed1 (s\<lparr>recentlyRemovedDueToCursorMove := b\<rparr>) =
       updateGivenCursorChanges ed1 s
   \<and> (\<forall>p \<in> set (data (updateGivenCursorChanges ed2 (updateGivenCursorChanges ed1 s)))
          \<union> set (recentlyRemovedDueToCursorMove
                   (updateGivenCursorChanges ed2 (updateGivenCursorChanges ed1 s))).
        enclosesPos p (selection_active ed1))"
proof -
  let ?s1 = "updateGivenCursorChanges ed1 s"
  let ?s2 = "updateGivenCursorChanges ed2 ?s1"
  have in1: "enclosesPos q (selection_active ed1)" if "q \<in> set (data ?s1)" for q
    using cursor_update_data_encloses [OF that] enclosesPos_ends by blast
  have "enclosesPos p (selection_active ed1)"
    if "p \<in> set (data ?s2) \<union> set (recentlyRemovedDueToCursorMove ?s2)" for p
  proof -
    from that obtain q where "q \<in> set (data ?s1)" "ends q = ends p"
      using cursor_update_data_encloses [of p ed2 ?s1]
            cursor_update_buffer_from_data [of p ed2 ?s1] by blast
    then show ?thesis using in1 enclosesPos_ends by blast
  qed
  then show ?thesis
    using cursor_update_buffer [of ed1 s] cursor_update_ignores_buffer [of ed1 b s] by blast
qed


theorem cursor_update_overwrites_rescue_list_witness:
  "recentlyRemovedDueToCursorMove
     (updateGivenCursorChanges \<lparr>selection_active = \<lparr>line = 0, character = 5\<rparr>, document_getText = (\<lambda>r. [])\<rparr>
        \<lparr>data = [newPair \<lparr>line = 0, character = 0\<rparr> \<lparr>line = 0, character = 9\<rparr>,
                 newPair \<lparr>line = 0, character = 2\<rparr> \<lparr>line = 0, character = 3\<rparr>],
         recentlyRemovedDueToCursorMove = [newPair \<lparr>line = 7, character = 0\<rparr> \<lparr>line = 7, character = 1\<rparr>],
         settings = \<lparr>languageRule = [], decorateOnlyNearestPair = True\<rparr>, calls = []\<rparr>)
     = [newPair \<lparr>line = 0, character = 2\<rparr> \<lparr>line = 0, character = 3\<rparr>]
   \<and> data
     (updateGivenCursorChanges \<lparr>selection_active = \<lparr>line = 0, character = 6\<rparr>, document_getText = (\<lambda>r. [])\<rparr>
       (updateGivenCursorChanges \<lparr>selection_active = \<lparr>line = 0, character = 5\<rparr>, document_getText = (\<lambda>r. [])\<rparr>
        \<lparr>data = [newPair \<lparr>line = 0, character = 0\<rparr> \<lparr>line = 0, character = 9\<rparr>,
                 newPair \<lparr>line = 0, character = 2\<rparr> \<lparr>line = 0, character = 3\<rparr>],
         recentlyRemovedDueToCursorMove = [newPair \<lparr>line = 7, character = 0\<rparr> \<lparr>line = 7, character = 1\<rparr>],
         settings = \<lparr>languageRule = [], decorateOnlyNearestPair = True\<rparr>, calls = []\<rparr>))
     = [decorate (newPair \<lparr>line = 0, character = 0\<rparr> \<lparr>line = 0, character = 9\<rparr>)]
   \<and> enclosesPos (decorate (newPair \<lparr>line = 0, character = 0\<rparr> \<lparr>line = 0, character = 9\<rparr>))
         \<lparr>line = 0, character = 5\<rparr>"
proof -
  let ?ed1 = "\<lparr>selection_active = \<lparr>line = 0, character = 5\<rparr>, document_getText = (\<lambda>r. [])\<rparr>"
  let ?ed2 = "\<lparr>selection_active = \<lparr>line = 0, character = 6\<rparr>, document_getText = (\<lambda>r. [])\<rparr>"
  let ?s = "\<lparr>data = [newPair \<lparr>line = 0, character = 0\<rparr> \<lparr>line = 0, character = 9\<rparr>,
                 newPair \<lparr>line = 0, character = 2\<rparr> \<lparr>line = 0, character = 3\<rparr>],
         recentlyRemovedDueToCursorMove = [newPair \<lparr>line = 7, character = 0\<rparr> \<lparr>line = 7, character = 1\<rparr>],
         settings = \<lparr>languageRule = [], decorateOnlyNearestPair = True\<rparr>, calls = []\<rparr>"
  have enc: "enclosesPos (newPair \<lparr>line = 0, character = 0\<rparr> \<lparr>line = 0, character = 9\<rparr>) \<lparr>line = 0, character = 5\<rparr>"
       "\<not> enclosesPos (newPair \<lparr>line = 0, character = 2\<rparr> \<lparr>line = 0, character = 3\<rparr>) \<lparr>line = 0, character = 5\<rparr>"
       "enclosesPos (decorate (newPair \<lparr>line = 0, character = 0\<rparr> \<lparr>line = 0, character = 9\<rparr>)) \<lparr>line = 0, character = 6\<rparr>"
    by (simp_all add: enclosesPos_def newPair_def decorate_def isBeforeOrEqual_def)
  have s1: "updateGivenCursorChanges ?ed1 ?s =
      \<lparr>data = [decorate (newPair \<lparr>line = 0, character = 0\<rparr> \<lparr>line = 0, character = 9\<rparr>)],
       recentlyRemovedDueToCursorMove = [newPair \<lparr>line = 0, character = 2\<rparr> \<lparr>line = 0, character = 3\<rparr>],
       settings = \<lparr>languageRule = [], decorateOnlyNearestPair = True\<rparr>,
       calls = [Undecorate (newPair \<lparr>line = 0, character = 2\<rparr> \<lparr>line = 0, character = 3\<rparr>),
                Undecorate (newPair \<lparr>line = 0, character = 0\<rparr> \<lparr>line = 0, character = 9\<rparr>),
                Decorate (newPair \<lparr>line = 0, character = 0\<rparr> \<lparr>line = 0, character = 9\<rparr>)]\<rparr>"
    using enc
    by (simp add: updateGivenCursorChanges_def Let_def removeDecorations_def
          reapplyDecorations_def)
       (simp add: newPair_def undecorate_def)
  have d2: "data (updateGivenCursorChanges ?ed2 (updateGivenCursorChanges ?ed1 ?s)) =
      [decorate (newPair \<lparr>line = 0, character = 0\<rparr> \<lparr>line = 0, character = 9\<rparr>)]"
    unfolding s1 using enc(3) by (simp add: updateGivenCursorChanges_def Let_def)
  from cursor_update_overwrites_rescue_list [of ?ed1 ?s "[]" ?ed2]
  have all: "\<forall>p \<in> set (data (updateGivenCursorChanges ?ed2 (updateGivenCursorChanges ?ed1 ?s))).
               enclosesPos p (selection_active ?ed1)"
    by blast
  have "enclosesPos (decorate (newPair \<lparr>line = 0, character = 0\<rparr> \<lparr>line = 0, character = 9\<rparr>))
          \<lparr>line = 0, character = 5\<rparr>"
    using all unfolding d2 by simp
  then show ?thesis using s1 d2 by simp
qed

lemma set_map_filter: "set (List.map_filter f xs) = {y. \<exists>x \<in> set xs. f x = Some y}"
  by (induction xs) (auto simp: List.map_filter_simps split: option.splits)

text \<open>
  Claim C4. After a cursor update the rescue list holds the pairs the update removed. The
  content update that follows passes them through the changes: a pair that comes through
  (no side deleted, both sides still on one line) and then encloses the cursor of that moment
  is put back among the tracked pairs, behind the pairs kept; every other pair of the rescue
  list is left out of the tracked pairs. The rescue list is empty afterwards in both cases,
  so a pair left out is held nowhere any more.
\<close>

theorem rescue_by_next_content_change:
  "recentlyRemovedDueToCursorMove (updateGivenCursorChanges ed1 s) =
     map undecorate (filter (\<lambda>p. \<not> enclosesPos p (selection_active ed1)) (data s))
   \<and> recentlyRemovedDueToCursorMove
       (stateAfter (updateGivenContentChanges cs ed2 (updateGivenCursorChanges ed1 s))) = []
   \<and> map ends (data (stateAfter
         (updateGivenContentChanges cs ed2 (updateGivenCursorChanges ed1 s)))) =
       map ends (List.map_filter (\<lambda>p. survivor p cs) (data (updateGivenCursorChanges ed1 s)))
       @ map ends (rescued (recentlyRemovedDueToCursorMove (updateGivenCursorChanges ed1 s))
                     cs (selection_active ed2))
       @ map ends (created cs (settings s))
   \<and> (\<forall>p \<in> set (recentlyRemovedDueToCursorMove (updateGivenCursorChanges ed1 s)).
         \<forall>p'. survivor p cs = Some p' \<and> enclosesPos p' (selection_active ed2) \<longrightarrow>
           ends p' \<in> set (map ends (data (stateAfter
              (updateGivenContentChanges cs ed2 (updateGivenCursorChanges ed1 s))))))"
proof -
  let ?s1 = "updateGivenCursorChanges ed1 s"
  let ?s2 = "stateAfter (updateGivenContentChanges cs ed2 ?s1)"
  let ?buf = "recentlyRemovedDueToCursorMove ?s1"
  have res: "(p' \<in> set (rescued ?buf cs (selection_active ed2)))
      = (\<exists>q \<in> set ?buf. survivor q cs = Some p' \<and> enclosesPos p' (selection_active ed2))" for p'
    by (auto simp: rescued_def set_map_filter)
  have dat: "map ends (data ?s2) =
       map ends (List.map_filter (\<lambda>p. survivor p cs) (data ?s1))
       @ map ends (rescued ?buf cs (selection_active ed2))
       @ map ends (created cs (settings s))"
    using content_update_data [of cs ed2 ?s1] by (simp add: cursor_update_settings)
  have again: "ends p' \<in> set (map ends (data ?s2))"
    if "p \<in> set ?buf" and "survivor p cs = Some p'" and "enclosesPos p' (selection_active ed2)"
    for p p'
  proof -
    from that have "p' \<in> set (rescued ?buf cs (selection_active ed2))"
      using res [of p'] by blast
    then show ?thesis unfolding dat by auto
  qed
  show ?thesis
    using cursor_update_buffer [of ed1 s] content_update_buffer [of cs ed2 ?s1] dat res again
    by blast
qed


theorem rescue_by_next_content_change_witness:
  "survivor (newPair \<lparr>line = 0, character = 5\<rparr> \<lparr>line = 0, character = 6\<rparr>)
     [\<lparr>change_range = \<lparr>start = \<lparr>line = 0, character = 0\<rparr>, finish = \<lparr>line = 0, character = 0\<rparr>\<rparr>,
       change_text = [0x61, 0x62, 0x63]\<rparr>]
     = Some (newPair \<lparr>line = 0, character = 8\<rparr> \<lparr>line = 0, character = 9\<rparr>)
   \<and> enclosesPos (newPair \<lparr>line = 0, character = 8\<rparr> \<lparr>line = 0, character = 9\<rparr>)
         \<lparr>line = 0, character = 8\<rparr>
   \<and> ends (newPair \<lparr>line = 0, character = 8\<rparr> \<lparr>line = 0, character = 9\<rparr>)
       \<in> set (map ends (data (stateAfter (updateGivenContentChanges
            [\<lparr>change_range = \<lparr>start = \<lparr>line = 0, character = 0\<rparr>, finish = \<lparr>line = 0, character = 0\<rparr>\<rparr>,
              change_text = [0x61, 0x62, 0x63]\<rparr>]
            \<lparr>selection_active = \<lparr>line = 0, character = 8\<rparr>, document_getText = (\<lambda>r. [])\<rparr>
            (updateGivenCursorChanges
               \<lparr>selection_active = \<lparr>line = 0, character = 8\<rparr>, document_getText = (\<lambda>r. [])\<rparr>
               \<lparr>data = [newPair \<lparr>line = 0, character = 5\<rparr> \<lparr>line = 0, character = 6\<rparr>],
                recentlyRemovedDueToCursorMove = [],
                settings = \<lparr>languageRule = [[0x28, 0x29]], decorateOnlyNearestPair = True\<rparr>,
                calls = []\<rparr>)))))
   \<and> data (updateGivenCursorChanges
               \<lparr>selection_active = \<lparr>line = 0, character = 8\<rparr>, document_getText = (\<lambda>r. [])\<rparr>
               \<lparr>data = [newPair \<lparr>line = 0, character = 5\<rparr> \<lparr>line = 0, character = 6\<rparr>],
                recentlyRemovedDueToCursorMove = [],
                settings = \<lparr>languageRule = [[0x28, 0x29]], decorateOnlyNearestPair = True\<rparr>,
                calls = []\<rparr>) = []"
proof -
  let ?P = "newPair \<lparr>line = 0, character = 5\<rparr> \<lparr>line = 0, character = 6\<rparr>"
  let ?P' = "newPair \<lparr>line = 0, character = 8\<rparr> \<lparr>line = 0, character = 9\<rparr>"
  let ?cs = "[\<lparr>change_range = \<lparr>start = \<lparr>line = 0, character = 0\<rparr>, finish = \<lparr>line = 0, character = 0\<rparr>\<rparr>,
               change_text = [0x61, 0x62, 0x63]\<rparr>]"
  let ?ed = "\<lparr>selection_active = \<lparr>line = 0, character = 8\<rparr>, document_getText = (\<lambda>r. [])\<rparr>"
  let ?s = "\<lparr>data = [?P], recentlyRemovedDueToCursorMove = [],
             settings = \<lparr>languageRule = [[0x28, 0x29]], decorateOnlyNearestPair = True\<rparr>,
             calls = []\<rparr>"
  have out: "\<not> enclosesPos ?P \<lparr>line = 0, character = 8\<rparr>"
    by (simp add: enclosesPos_def newPair_def isBeforeOrEqual_def)
  have und: "undecorate ?P = ?P" by (simp add: undecorate_def newPair_def)
  have surv: "survivor ?P ?cs = Some ?P'"
    by (simp add: survivor_def newPair_def getNewPos_def getEndPos_def mkRange_def LF_def
          isAfterOrEqual_def isBefore_def isSingleLine_def Let_def)
  have enc: "enclosesPos ?P' \<lparr>line = 0, character = 8\<rparr>"
    by (simp add: enclosesPos_def newPair_def isBeforeOrEqual_def)
  have d1: "data (updateGivenCursorChanges ?ed ?s) = []"
    using out by (simp add: updateGivenCursorChanges_def removeDecorations_def
          reapplyDecorations_def Let_def)
  note inst = rescue_by_next_content_change [of ?ed ?s ?cs ?ed]
  from inst have buf: "recentlyRemovedDueToCursorMove (updateGivenCursorChanges ?ed ?s) = [?P]"
    using out und by simp
  from inst have "\<forall>p \<in> set (recentlyRemovedDueToCursorMove (updateGivenCursorChanges ?ed ?s)).
         \<forall>p'. survivor p ?cs = Some p' \<and> enclosesPos p' (selection_active ?ed) \<longrightarrow>
           ends p' \<in> set (map ends (data (stateAfter
              (updateGivenContentChanges ?cs ?ed (updateGivenCursorChanges ?ed ?s)))))"
    by blast
  then have "ends ?P' \<in> set (map ends (data (stateAfter
              (updateGivenContentChanges ?cs ?ed (updateGivenCursorChanges ?ed ?s)))))"
    unfolding buf using surv enc by simp
  then show ?thesis using surv enc d1 by blast
qed

section \<open>Order of positions and its preservation\<close>

lemma isBefore_trans: "isBefore a b \<Longrightarrow> isBefore b c \<Longrightarrow> isBefore a c"
  by (auto simp: isBefore_def split: if_splits)

lemma isBeforeOrEqual_trans: "isBeforeOrEqual a b \<Longrightarrow> isBeforeOrEqual b c \<Longrightarrow> isBeforeOrEqual a c"
  by (auto simp: isBeforeOrEqual_def split: if_splits)

lemma isBefore_le_trans: "isBefore a b \<Longrightarrow> isBeforeOrEqual b c \<Longrightarrow> isBefore a c"
  by (auto simp: isBefore_def isBeforeOrEqual_def split: if_splits)

lemma isBefore_imp_le: "isBefore a b \<Longrightarrow> isBeforeOrEqual a b"
  by (auto simp: isBefore_def isBeforeOrEqual_def split: if_splits)

lemma not_isBefore: "(\<not> isBefore a b) = isBeforeOrEqual b a"
  by (auto simp: isBefore_def isBeforeOrEqual_def split: if_splits)

lemma getNewPos_branches:
  "getNewPos p c =
     (if overwrites c p then None
      else if isBefore p (start (change_range c)) then Some p
      else Some (shifted c p))"
proof -
  have "mkRange (finish (change_range c)) p = \<lparr>start = finish (change_range c), finish = p\<rparr>"
    if "\<not> overwrites c p" "\<not> isBefore p (start (change_range c))"
    using that by (simp add: mkRange_def overwrites_def isAfterOrEqual_def)
  then show ?thesis
    by (simp add: getNewPos_def overwrites_def shifted_def Let_def)
qed

lemma shifted_eq:
  "shifted c p =
     \<lparr>line = line (start (change_range c)) + insertedLines (change_text c)
               + (line p - line (finish (change_range c))),
      character =
        (character p - (if line (finish (change_range c)) = line p
                        then character (finish (change_range c)) else 0))
        + (if line p - line (finish (change_range c)) > 0 then 0
           else insertedLastLineLen (change_text c)
                + (if insertedLines (change_text c) > 0 then 0
                   else character (start (change_range c))))\<rparr>"
  by (simp add: shifted_def getEndPos_Text) (simp add: getEndPos_def isSingleLine_def)

lemma start_le_shifted:
  "isBeforeOrEqual (finish (change_range c)) p \<Longrightarrow>
     isBeforeOrEqual (start (change_range c)) (shifted c p)"
  unfolding shifted_eq by (auto simp: isBeforeOrEqual_def split: if_splits)

lemma shifted_mono:
  "isBeforeOrEqual (finish (change_range c)) p \<Longrightarrow> isBefore p q \<Longrightarrow>
     isBefore (shifted c p) (shifted c q)"
  unfolding shifted_eq by (auto simp: isBeforeOrEqual_def isBefore_def split: if_splits)

lemma getNewPos_mono:
  assumes lt: "isBefore p q"
      and p': "getNewPos p c = Some p'" and q': "getNewPos q c = Some q'"
  shows "isBefore p' q'"
proof -
  let ?s = "start (change_range c)" and ?e = "finish (change_range c)"
  from p' have np: "\<not> overwrites c p" by (simp add: getNewPos_None [symmetric])
  from q' have nq: "\<not> overwrites c q" by (simp add: getNewPos_None [symmetric])
  show ?thesis
  proof (cases "isBefore q ?s")
    case True
    with lt have "isBefore p ?s" by (rule isBefore_trans)
    with True p' q' np nq lt show ?thesis by (simp add: getNewPos_branches)
  next
    case qs: False
    with nq have qe: "isBeforeOrEqual ?e q"
      by (simp add: overwrites_def isAfterOrEqual_def not_isBefore)
    from qs nq q' have q'_eq: "q' = shifted c q" by (simp add: getNewPos_branches)
    show ?thesis
    proof (cases "isBefore p ?s")
      case True
      with np p' have "p' = p" by (simp add: getNewPos_branches)
      moreover have "isBefore p (shifted c q)"
        using True start_le_shifted [OF qe] by (rule isBefore_le_trans)
      ultimately show ?thesis using q'_eq by simp
    next
      case False
      with np have pe: "isBeforeOrEqual ?e p"
        by (simp add: overwrites_def isAfterOrEqual_def not_isBefore)
      from False np p' have "p' = shifted c p" by (simp add: getNewPos_branches)
      with q'_eq shifted_mono [OF pe lt] show ?thesis by simp
    qed
  qed
qed

lemma positionDelta_mono:
  "isBefore p q \<Longrightarrow> positionDelta p cs = Some p' \<Longrightarrow> positionDelta q cs = Some q' \<Longrightarrow>
     isBefore p' q'"
proof (induction cs arbitrary: p q)
  case Nil
  then show ?case by simp
next
  case (Cons c cs)
  from Cons.prems obtain p1 q1 where
    p1: "getNewPos p c = Some p1" "positionDelta p1 cs = Some p'" and
    q1: "getNewPos q c = Some q1" "positionDelta q1 cs = Some q'"
    by (auto split: option.splits)
  from getNewPos_mono [OF Cons.prems(1) p1(1) q1(1)] have "isBefore p1 q1" .
  from Cons.IH [OF this p1(2) q1(2)] show ?case .
qed

section \<open>Which pairs a batch drops\<close>

lemma applyToPair_Cons:
  "applyToPair p (c # cs) =
     (if dropsPair c p then Inl p
      else applyToPair (p\<lparr>openPos := the (getNewPos (openPos p) c),
                          close := the (getNewPos (close p) c)\<rparr>) cs)"
  by (auto simp: dropsPair_def split: option.splits)

lemma survivor_Nil: "survivor p [] = Some p"
  by (simp add: survivor_def)

lemma survivor_Cons:
  "survivor p (c # cs) =
     (if dropsPair c p then None
      else survivor (p\<lparr>openPos := the (getNewPos (openPos p) c),
                       close := the (getNewPos (close p) c)\<rparr>) cs)"
  by (simp add: survivor_def applyToPair_Cons del: applyToPair.simps)

lemma survivor_single: "survivor p [c] = Some p' \<Longrightarrow> \<not> dropsPair c p"
  by (simp add: survivor_Cons split: if_splits)

lemma survivor_None:
  "(survivor p cs = None) =
     (\<exists>pre c post p'. cs = pre @ c # post \<and> survivor p pre = Some p' \<and> dropsPair c p')"
proof (induction cs arbitrary: p)
  case Nil
  show ?case by (simp add: survivor_Nil)
next
  case (Cons c cs)
  let ?p1 = "p\<lparr>openPos := the (getNewPos (openPos p) c), close := the (getNewPos (close p) c)\<rparr>"
  show ?case
  proof (cases "dropsPair c p")
    case True
    then have "c # cs = [] @ c # cs \<and> survivor p [] = Some p \<and> dropsPair c p"
      by (simp add: survivor_Nil)
    then have "\<exists>pre c' post p'. c # cs = pre @ c' # post \<and> survivor p pre = Some p' \<and> dropsPair c' p'"
      by blast
    with True show ?thesis by (simp add: survivor_Cons)
  next
    case False
    have "(\<exists>pre c' post p'. c # cs = pre @ c' # post \<and> survivor p pre = Some p' \<and> dropsPair c' p')
        = (\<exists>pre c' post p'. cs = pre @ c' # post \<and> survivor ?p1 pre = Some p' \<and> dropsPair c' p')"
      (is "?L = ?R")
    proof
      assume ?L
      then obtain pre c' post p' where
        h: "c # cs = pre @ c' # post" "survivor p pre = Some p'" "dropsPair c' p'"
        by blast
      show ?R
      proof (cases pre)
        case Nil
        with h False show ?thesis by (simp add: survivor_Nil)
      next
        case (Cons a pre')
        with h False have "cs = pre' @ c' # post" "survivor ?p1 pre' = Some p'"
          by (auto simp: survivor_Cons)
        with h(3) show ?thesis by blast
      qed
    next
      assume ?R
      then obtain pre c' post p' where
        h: "cs = pre @ c' # post" "survivor ?p1 pre = Some p'" "dropsPair c' p'"
        by blast
      then have "c # cs = (c # pre) @ c' # post" "survivor p (c # pre) = Some p'"
        using False by (auto simp: survivor_Cons)
      with h(3) show ?L by blast
    qed
    with False Cons [of ?p1] show ?thesis by (simp add: survivor_Cons)
  qed
qed

lemma survivor_positionDelta:
  "survivor p cs = Some p' \<Longrightarrow>
     positionDelta (openPos p) cs = Some (openPos p') \<and> positionDelta (close p) cs = Some (close p')
     \<and> isDecorated p' = isDecorated p"
  using applyToPair_positionDelta [of p cs p']
  by (simp add: survivor_def split: sum.splits)

text \<open>An insertion of text with a line break, at \<open>q\<close>.\<close>

lemma insertion_unchanged:
  "isEmpty (change_range c) \<Longrightarrow> isBefore p (start (change_range c)) \<Longrightarrow> getNewPos p c = Some p"
  by (simp add: getNewPos_branches overwrites_def isEmpty_def isAfterOrEqual_def)

lemma insertion_shifted:
  "isEmpty (change_range c) \<Longrightarrow> isBeforeOrEqual (start (change_range c)) p \<Longrightarrow>
     getNewPos p c = Some (shifted c p)"
  by (simp add: getNewPos_branches overwrites_def isEmpty_def isAfterOrEqual_def
        not_isBefore [symmetric])

lemma line_shifted_insertion:
  "isEmpty (change_range c) \<Longrightarrow> isBeforeOrEqual (start (change_range c)) p \<Longrightarrow>
     line (shifted c p) = line p + insertedLines (change_text c)"
  unfolding shifted_eq by (auto simp: isEmpty_def isBeforeOrEqual_def split: if_splits)

lemma insertedLines_pos: "LF \<in> set t \<Longrightarrow> 0 < insertedLines t"
  by (auto simp: insertedLines_def filter_empty_conv)

lemma multiline_insertion_drops:
  assumes ins: "isEmpty (change_range c)" and lf: "LF \<in> set (change_text c)"
      and single: "line (openPos p) = line (close p)"
      and wf: "isBeforeOrEqual (openPos p) (close p)"
  shows "dropsPair c p =
           (isBefore (openPos p) (start (change_range c))
            \<and> isBeforeOrEqual (start (change_range c)) (close p))"
proof (cases "isBefore (openPos p) (start (change_range c))")
  case before: True
  show ?thesis
  proof (cases "isBeforeOrEqual (start (change_range c)) (close p)")
    case True
    have "line (shifted c (close p)) \<noteq> line (openPos p)"
      using line_shifted_insertion [OF ins True] insertedLines_pos [OF lf] single by simp
    then show ?thesis
      using before True insertion_unchanged [OF ins before] insertion_shifted [OF ins True]
      by (auto simp: dropsPair_def)
  next
    case False
    then have "isBefore (close p) (start (change_range c))" by (simp add: not_isBefore [symmetric])
    then show ?thesis
      using before False insertion_unchanged [OF ins] single by (simp add: dropsPair_def)
  qed
next
  case False
  then have o: "isBeforeOrEqual (start (change_range c)) (openPos p)" by (simp add: not_isBefore)
  from o wf have cl: "isBeforeOrEqual (start (change_range c)) (close p)"
    by (rule isBeforeOrEqual_trans)
  show ?thesis
    using False insertion_shifted [OF ins o] insertion_shifted [OF ins cl]
      line_shifted_insertion [OF ins o] line_shifted_insertion [OF ins cl] single
    by (simp add: dropsPair_def)
qed

text \<open>
  Claim C2, as the source has it. After a content update the tracked pairs are the pairs that
  came through the batch, in their order and with the positions the batch gives them,
  followed by the pairs rescued and the pair created. A pair does not come through iff some
  change of the batch, met by the pair as the earlier changes left it, deletes a side or puts
  the two sides on different lines. In particular an insertion of text with a line break drops
  a pair that is on one line exactly when the insertion point is after the pair's open and not
  after its close: the pair meant, every pair around it, and no other.
\<close>

theorem content_update_drops_pairs:
  "map ends (data (stateAfter (updateGivenContentChanges cs ed s))) =
       map ends (List.map_filter (\<lambda>p. survivor p cs) (data s))
       @ map ends (rescued (recentlyRemovedDueToCursorMove s) cs (selection_active ed))
       @ map ends (created cs (settings s))
   \<and> (survivor p cs = None) =
       (\<exists>pre c post p'. cs = pre @ c # post \<and> survivor p pre = Some p' \<and> dropsPair c p')
   \<and> (survivor p cs = Some p' \<longrightarrow>
         positionDelta (openPos p) cs = Some (openPos p')
         \<and> positionDelta (close p) cs = Some (close p'))
   \<and> (isEmpty (change_range c) \<and> LF \<in> set (change_text c)
        \<and> line (openPos p) = line (close p) \<and> isBeforeOrEqual (openPos p) (close p) \<longrightarrow>
         (survivor p [c] = None) =
           (isBefore (openPos p) (start (change_range c))
            \<and> isBeforeOrEqual (start (change_range c)) (close p)))"
proof -
  have "survivor p [c] = None \<longleftrightarrow> dropsPair c p"
    by (simp add: survivor_Cons survivor_Nil)
  then show ?thesis
    using content_update_data [of cs ed s] survivor_None [of p cs]
      survivor_positionDelta [of p cs p'] multiline_insertion_drops [of c p]
    by simp
qed


lemmas example_defs =
  pos_def insertion_def cursorAt_def parens_def initial_def newPair_def LF_def

lemmas position_defs =
  isBefore_def isBeforeOrEqual_def isAfter_def isAfterOrEqual_def isEmpty_def isSingleLine_def
  mkRange_def translate_def enclosesPos_def

lemmas delta_defs = getNewPos_def getEndPos_def Let_def

lemmas decoration_defs = removeDecorations_def reapplyDecorations_def decorate_def undecorate_def

theorem content_update_drops_pairs_witness:
  "isEmpty (change_range (insertion (pos 0 3) [LF]))
   \<and> LF \<in> set (change_text (insertion (pos 0 3) [LF]))
   \<and> line (openPos (newPair (pos 0 1) (pos 0 4))) = line (close (newPair (pos 0 1) (pos 0 4)))
   \<and> isBeforeOrEqual (openPos (newPair (pos 0 1) (pos 0 4))) (close (newPair (pos 0 1) (pos 0 4)))
   \<and> survivor (newPair (pos 0 1) (pos 0 4)) [insertion (pos 0 3) [LF]] = None
   \<and> survivor (newPair (pos 0 6) (pos 0 7)) [insertion (pos 0 3) [LF]]
       = Some (newPair (pos 1 3) (pos 1 4))
   \<and> positionDelta (pos 0 6) [insertion (pos 0 3) [LF]] = Some (pos 1 3)
   \<and> positionDelta (pos 0 7) [insertion (pos 0 3) [LF]] = Some (pos 1 4)"
proof -
  let ?c = "insertion (pos 0 3) [LF]"
  let ?P = "newPair (pos 0 1) (pos 0 4)"
  let ?Q = "newPair (pos 0 6) (pos 0 7)"
  have pre: "isEmpty (change_range ?c)" "LF \<in> set (change_text ?c)"
    "line (openPos ?P) = line (close ?P)" "isBeforeOrEqual (openPos ?P) (close ?P)"
    by (simp_all add: example_defs position_defs)
  have between: "isBefore (openPos ?P) (start (change_range ?c))"
    "isBeforeOrEqual (start (change_range ?c)) (close ?P)"
    by (simp_all add: example_defs position_defs)
  have surv: "survivor ?Q [?c] = Some (newPair (pos 1 3) (pos 1 4))"
    by (simp add: survivor_def example_defs position_defs delta_defs)
  from content_update_drops_pairs [of "[?c]" "cursorAt (pos 1 0)" "initial \<lparr>languageRule = [], decorateOnlyNearestPair = True\<rparr>" ?P ?P ?c]
  have dropped: "survivor ?P [?c] = None" using pre between by blast
  from content_update_drops_pairs [of "[?c]" "cursorAt (pos 1 0)" "initial \<lparr>languageRule = [], decorateOnlyNearestPair = True\<rparr>" ?Q "newPair (pos 1 3) (pos 1 4)" ?c]
  have "positionDelta (openPos ?Q) [?c] = Some (openPos (newPair (pos 1 3) (pos 1 4)))
      \<and> positionDelta (close ?Q) [?c] = Some (close (newPair (pos 1 3) (pos 1 4)))"
    using surv by blast
  then have "positionDelta (pos 0 6) [?c] = Some (pos 1 3)
      \<and> positionDelta (pos 0 7) [?c] = Some (pos 1 4)"
    by (simp add: newPair_def)
  with pre dropped surv show ?thesis by blast
qed

text \<open>
  The claim as written fails on two nested pairs, in the text \<open>((ab))\<close>: a line break typed
  between \<open>a\<close> and \<open>b\<close> is strictly between the sides of the inner pair, and the update
  removes the outer pair too.
\<close>

theorem line_break_removes_outer_pair:
  "isBefore (pos 0 1) (pos 0 3) \<and> isBefore (pos 0 3) (pos 0 4)
   \<and> data (stateAfter (updateGivenContentChanges [insertion (pos 0 3) [LF]] (cursorAt (pos 1 0))
        \<lparr>data = [newPair (pos 0 0) (pos 0 5), newPair (pos 0 1) (pos 0 4)],
         recentlyRemovedDueToCursorMove = [],
         settings = \<lparr>languageRule = [parens], decorateOnlyNearestPair = True\<rparr>,
         calls = []\<rparr>)) = []"
  by (simp add: updateGivenContentChanges_def stateAfter_def getNewPair_def
        example_defs position_defs delta_defs decoration_defs)

section \<open>The nesting invariant\<close>

lemma transp_nestedEnds: "transp nestedEnds"
  unfolding transp_def nestedEnds_def by (blast intro: isBefore_trans)

lemma properlyNested_sorted_wrt:
  "properlyNested ps = sorted_wrt nestedEnds (map ends ps)"
proof (induction ps rule: properlyNested.induct)
  case (3 p q rest)
  have "properlyNested (p # q # rest) =
          (nestedEnds (ends p) (ends q) \<and> properlyNested (q # rest))"
    by (simp add: nestedEnds_def ends_def)
  also have "\<dots> = (nestedEnds (ends p) (ends q) \<and> sorted_wrt nestedEnds (map ends (q # rest)))"
    using 3 by simp
  also have "\<dots> = sorted_wrt nestedEnds (ends p # ends q # map ends rest)"
    using sorted_wrt2 [OF transp_nestedEnds, of "ends p" "ends q" "map ends rest"]
    by (simp del: sorted_wrt.simps)
  finally show ?case by (simp del: sorted_wrt.simps properlyNested.simps)
qed simp_all

lemma survivor_nested:
  assumes n: "nestedEnds (ends a) (ends b)"
      and a: "survivor a cs = Some a'" and b: "survivor b cs = Some b'"
  shows "nestedEnds (ends a') (ends b')"
proof -
  from survivor_positionDelta [OF a] survivor_positionDelta [OF b] have d:
    "positionDelta (openPos a) cs = Some (openPos a')" "positionDelta (close a) cs = Some (close a')"
    "positionDelta (openPos b) cs = Some (openPos b')" "positionDelta (close b) cs = Some (close b')"
    by simp_all
  from n have o: "isBefore (openPos a) (openPos b)" and m: "isBefore (openPos b) (close b)"
    and c: "isBefore (close b) (close a)"
    by (simp_all add: nestedEnds_def ends_def)
  from positionDelta_mono [OF o d(1) d(3)] positionDelta_mono [OF m d(3) d(4)]
       positionDelta_mono [OF c d(4) d(2)]
  show ?thesis by (simp add: nestedEnds_def ends_def)
qed

lemma map_filter_append:
  "List.map_filter f (xs @ ys) = List.map_filter f xs @ List.map_filter f ys"
  by (simp add: List.map_filter_def)

lemma survivors_nested:
  "sorted_wrt nestedEnds (map ends xs) \<Longrightarrow>
     sorted_wrt nestedEnds (map ends (List.map_filter (\<lambda>p. survivor p cs) xs))"
proof (induction xs)
  case Nil
  show ?case by (simp add: List.map_filter_simps)
next
  case (Cons x xs)
  from Cons.prems have tl: "sorted_wrt nestedEnds (map ends xs)"
    and hd: "\<forall>y \<in> set xs. nestedEnds (ends x) (ends y)"
    by simp_all
  show ?case
  proof (cases "survivor x cs")
    case None
    with Cons.IH [OF tl] show ?thesis by (simp add: List.map_filter_simps)
  next
    case (Some x')
    have "nestedEnds (ends x') (ends y')"
      if "y' \<in> set (List.map_filter (\<lambda>p. survivor p cs) xs)" for y'
    proof -
      from that obtain y where "y \<in> set xs" "survivor y cs = Some y'"
        by (auto simp: set_map_filter)
      with hd Some show ?thesis using survivor_nested by blast
    qed
    with Some Cons.IH [OF tl] show ?thesis by (simp add: List.map_filter_simps)
  qed
qed

lemma sorted_wrt_filter_tail:
  "sorted_wrt R (map f (xs @ ys)) \<Longrightarrow> sorted_wrt R (map f (xs @ filter P ys))"
  by (auto simp: sorted_wrt_append sorted_wrt_map intro: sorted_wrt_filter)

lemma sorted_wrt_last_all:
  assumes "transp R" and "sorted_wrt R xs" and "xs \<noteq> []" and "R (last xs) y"
  shows "\<forall>x \<in> set xs. R x y"
proof
  fix x assume x: "x \<in> set xs"
  from assms(3) have xs: "xs = butlast xs @ [last xs]" by simp
  show "R x y"
  proof (cases "x = last xs")
    case True
    with assms(4) show ?thesis by simp
  next
    case False
    with x xs have "x \<in> set (butlast xs)"
      by (metis Un_iff empty_iff empty_set insert_iff list.simps(15) set_append)
    moreover from assms(2) xs have "\<forall>a \<in> set (butlast xs). R a (last xs)"
      by (metis sorted_wrt_append list.set_intros(1))
    ultimately have "R x (last xs)" by blast
    with assms(1,4) show ?thesis by (meson transpD)
  qed
qed

lemma enclosesPos_outer:
  "nestedEnds (ends a) (ends b) \<Longrightarrow> enclosesPos b x \<Longrightarrow> enclosesPos a x"
  unfolding nestedEnds_def ends_def enclosesPos_def
  by (auto intro: isBeforeOrEqual_trans isBefore_imp_le)

lemma filter_prefix:
  "sorted_wrt nestedEnds (map ends xs) \<Longrightarrow>
     filter (\<lambda>p. enclosesPos p x) xs @ filter (\<lambda>p. \<not> enclosesPos p x) xs = xs"
proof (induction xs)
  case Nil
  show ?case by simp
next
  case (Cons a xs)
  from Cons.prems have tl: "sorted_wrt nestedEnds (map ends xs)"
    and hd: "\<forall>y \<in> set xs. nestedEnds (ends a) (ends y)"
    by simp_all
  show ?case
  proof (cases "enclosesPos a x")
    case True
    with Cons.IH [OF tl] show ?thesis by simp
  next
    case False
    with hd have none: "\<forall>y \<in> set xs. \<not> enclosesPos y x"
      using enclosesPos_outer by blast
    then have "filter (\<lambda>p. enclosesPos p x) xs = []" "filter (\<lambda>p. \<not> enclosesPos p x) xs = xs"
      by (simp_all add: filter_empty_conv filter_id_conv)
    with False show ?thesis by simp
  qed
qed

lemma created_cases: "created cs st = [] \<or> (\<exists>pair. created cs st = [pair])"
  by (simp add: created_def split: sum.splits option.splits)

lemma nestingInv_initial: "nestingInv (initial st)"
  by (simp add: nestingInv_def initial_def)

lemma nestingInv_clear: "nestingInv (clear s)"
  by (simp add: nestingInv_def clear_def)

lemma nestingInv_cursor:
  assumes "nestingInv s"
  shows "nestingInv (updateGivenCursorChanges ed s)"
proof -
  let ?e = "\<lambda>p. enclosesPos p (selection_active ed)"
  from assms have d: "sorted_wrt nestedEnds (map ends (data s))"
    by (simp add: nestingInv_def sorted_wrt_append)
  have "map ends (data (updateGivenCursorChanges ed s)
                  @ recentlyRemovedDueToCursorMove (updateGivenCursorChanges ed s))
        = map ends (filter ?e (data s)) @ map ends (filter (\<lambda>p. \<not> ?e p) (data s))"
    by (simp add: cursor_update_data cursor_update_buffer comp_def)
  also have "\<dots> = map ends (filter ?e (data s) @ filter (\<lambda>p. \<not> ?e p) (data s))"
    by simp
  also have "\<dots> = map ends (data s)"
    by (simp only: filter_prefix [OF d])
  finally show ?thesis using d by (simp only: nestingInv_def)
qed

lemma nestingInv_content:
  assumes inv: "nestingInv s" and inside: "newPairInside cs ed s"
  shows "nestingInv (stateAfter (updateGivenContentChanges cs ed s))"
proof -
  let ?kept = "List.map_filter (\<lambda>p. survivor p cs) (data s)
               @ rescued (recentlyRemovedDueToCursorMove s) cs (selection_active ed)"
  let ?s' = "stateAfter (updateGivenContentChanges cs ed s)"
  have "sorted_wrt nestedEnds (map ends (List.map_filter (\<lambda>p. survivor p cs)
          (data s @ recentlyRemovedDueToCursorMove s)))"
    using inv unfolding nestingInv_def by (rule survivors_nested)
  then have "sorted_wrt nestedEnds (map ends (List.map_filter (\<lambda>p. survivor p cs) (data s)
          @ List.map_filter (\<lambda>p. survivor p cs) (recentlyRemovedDueToCursorMove s)))"
    by (simp only: map_filter_append)
  then have kept: "sorted_wrt nestedEnds (map ends ?kept)"
    unfolding rescued_def by (rule sorted_wrt_filter_tail)
  have all: "map ends (data ?s' @ recentlyRemovedDueToCursorMove ?s')
               = map ends (?kept @ created cs (settings s))"
    by (simp add: content_update_data content_update_buffer)
  have "sorted_wrt nestedEnds (map ends (?kept @ created cs (settings s)))"
  proof (cases "created cs (settings s)")
    case Nil
    with kept show ?thesis by simp
  next
    case (Cons pair rest)
    with created_cases [of cs "settings s"] have one: "created cs (settings s) = [pair]" by simp
    from inside one have g: "?kept = [] \<or> nestedEnds (ends (last ?kept)) (ends pair)"
      by (simp add: newPairInside_def Let_def)
    have "\<forall>x \<in> set (map ends ?kept). nestedEnds x (ends pair)"
    proof (cases "?kept = []")
      case True
      then show ?thesis by simp
    next
      case False
      with g have "nestedEnds (ends (last ?kept)) (ends pair)" by blast
      with False have "nestedEnds (last (map ends ?kept)) (ends pair)"
        by (metis last_map)
      with False show ?thesis
        using sorted_wrt_last_all [OF transp_nestedEnds kept, of "ends pair"] by simp
    qed
    with kept one show ?thesis
      using sorted_wrt_append [of nestedEnds "map ends ?kept" "[ends pair]"] by simp
  qed
  then show ?thesis unfolding nestingInv_def by (simp only: all)
qed

lemma reachable_nestingInv: "reachableBy newPairInside st s \<Longrightarrow> nestingInv s"
proof (induction rule: reachableBy.induct)
  case constructed
  show ?case by (rule nestingInv_initial)
next
  case (contentChange s cs ed)
  then show ?case by (simp add: nestingInv_content)
next
  case (cursorChange s ed)
  then show ?case by (simp add: nestingInv_cursor)
next
  case (cleared s)
  show ?case by (rule nestingInv_clear)
qed

text \<open>
  Claim C5, as the source has it. The tracked pairs are properly nested in every state
  reached by cursor updates, clears and those content updates whose new pair, if they create
  one, lies strictly inside the last pair that the update keeps or rescues. Nothing in the
  code lets a content update compare the insertion point with the tracked pairs.
\<close>

theorem nesting_invariant:
  "reachableBy newPairInside st s \<Longrightarrow> properlyNested (data s)"
proof -
  assume "reachableBy newPairInside st s"
  then have "nestingInv s" by (rule reachable_nestingInv)
  then have "sorted_wrt nestedEnds (map ends (data s))"
    by (simp add: nestingInv_def sorted_wrt_append)
  then show ?thesis by (simp only: properlyNested_sorted_wrt)
qed


lemmas update_defs =
  updateGivenContentChanges_def stateAfter_def getNewPair_def survivor_def created_def
  rescued_def List.map_filter_simps

lemma typed_first_pair:
  "stateAfter (updateGivenContentChanges [insertion (pos 0 0) parens] (cursorAt (pos 0 1))
      (initial \<lparr>languageRule = [parens], decorateOnlyNearestPair = True\<rparr>))
   = \<lparr>data = [decorate (newPair (pos 0 0) (pos 0 1))],
      recentlyRemovedDueToCursorMove = [],
      settings = \<lparr>languageRule = [parens], decorateOnlyNearestPair = True\<rparr>,
      calls = [Undecorate (newPair (pos 0 0) (pos 0 1)), Decorate (newPair (pos 0 0) (pos 0 1))]\<rparr>"
  by (simp add: update_defs example_defs position_defs delta_defs decoration_defs)

theorem nesting_invariant_witness:
  "reachableBy newPairInside \<lparr>languageRule = [parens], decorateOnlyNearestPair = True\<rparr>
     (stateAfter (updateGivenContentChanges [insertion (pos 0 1) parens] (cursorAt (pos 0 2))
       (stateAfter (updateGivenContentChanges [insertion (pos 0 0) parens] (cursorAt (pos 0 1))
         (initial \<lparr>languageRule = [parens], decorateOnlyNearestPair = True\<rparr>)))))
   \<and> properlyNested (data
     (stateAfter (updateGivenContentChanges [insertion (pos 0 1) parens] (cursorAt (pos 0 2))
       (stateAfter (updateGivenContentChanges [insertion (pos 0 0) parens] (cursorAt (pos 0 1))
         (initial \<lparr>languageRule = [parens], decorateOnlyNearestPair = True\<rparr>))))))
   \<and> map ends (data
     (stateAfter (updateGivenContentChanges [insertion (pos 0 1) parens] (cursorAt (pos 0 2))
       (stateAfter (updateGivenContentChanges [insertion (pos 0 0) parens] (cursorAt (pos 0 1))
         (initial \<lparr>languageRule = [parens], decorateOnlyNearestPair = True\<rparr>))))))
     = [(pos 0 0, pos 0 3), (pos 0 1, pos 0 2)]"
proof -
  let ?st = "\<lparr>languageRule = [parens], decorateOnlyNearestPair = True\<rparr>"
  let ?s0 = "initial ?st"
  let ?s1 = "stateAfter (updateGivenContentChanges [insertion (pos 0 0) parens] (cursorAt (pos 0 1)) ?s0)"
  let ?s2 = "stateAfter (updateGivenContentChanges [insertion (pos 0 1) parens] (cursorAt (pos 0 2)) ?s1)"
  have g1: "newPairInside [insertion (pos 0 0) parens] (cursorAt (pos 0 1)) ?s0"
    by (simp add: newPairInside_def update_defs example_defs position_defs)
  have g2: "newPairInside [insertion (pos 0 1) parens] (cursorAt (pos 0 2)) ?s1"
    unfolding typed_first_pair
    by (simp add: newPairInside_def nestedEnds_def ends_def update_defs example_defs
          position_defs delta_defs decoration_defs)
  have r0: "reachableBy newPairInside ?st ?s0" by (rule reachableBy.constructed)
  from r0 g1 have r1: "reachableBy newPairInside ?st ?s1" by (rule reachableBy.contentChange)
  from r1 g2 have r2: "reachableBy newPairInside ?st ?s2" by (rule reachableBy.contentChange)
  have d2: "map ends (data ?s2) = [(pos 0 0, pos 0 3), (pos 0 1, pos 0 2)]"
    unfolding typed_first_pair
    by (simp add: ends_def update_defs example_defs position_defs delta_defs decoration_defs)
  from nesting_invariant [OF r2] r2 d2 show ?thesis by blast
qed

text \<open>
  The claim as written fails after two content updates with no cursor update between them:
  a trigger pair typed at the start of the line, then another one five characters to the
  right. Both pairs are tracked, side by side.
\<close>

theorem side_by_side_pairs_reachable:
  "reachableBy anyBatch \<lparr>languageRule = [parens], decorateOnlyNearestPair = True\<rparr>
     (stateAfter (updateGivenContentChanges [insertion (pos 0 5) parens] (cursorAt (pos 0 6))
       (stateAfter (updateGivenContentChanges [insertion (pos 0 0) parens] (cursorAt (pos 0 1))
         (initial \<lparr>languageRule = [parens], decorateOnlyNearestPair = True\<rparr>)))))
   \<and> \<not> properlyNested (data
     (stateAfter (updateGivenContentChanges [insertion (pos 0 5) parens] (cursorAt (pos 0 6))
       (stateAfter (updateGivenContentChanges [insertion (pos 0 0) parens] (cursorAt (pos 0 1))
         (initial \<lparr>languageRule = [parens], decorateOnlyNearestPair = True\<rparr>))))))
   \<and> map ends (data
     (stateAfter (updateGivenContentChanges [insertion (pos 0 5) parens] (cursorAt (pos 0 6))
       (stateAfter (updateGivenContentChanges [insertion (pos 0 0) parens] (cursorAt (pos 0 1))
         (initial \<lparr>languageRule = [parens], decorateOnlyNearestPair = True\<rparr>))))))
     = [(pos 0 0, pos 0 1), (pos 0 5, pos 0 6)]"
proof -
  let ?st = "\<lparr>languageRule = [parens], decorateOnlyNearestPair = True\<rparr>"
  let ?s0 = "initial ?st"
  let ?s1 = "stateAfter (updateGivenContentChanges [insertion (pos 0 0) parens] (cursorAt (pos 0 1)) ?s0)"
  let ?s2 = "stateAfter (updateGivenContentChanges [insertion (pos 0 5) parens] (cursorAt (pos 0 6)) ?s1)"
  have r0: "reachableBy anyBatch ?st ?s0" by (rule reachableBy.constructed)
  then have r1: "reachableBy anyBatch ?st ?s1"
    by (rule reachableBy.contentChange) (simp add: anyBatch_def)
  then have r2: "reachableBy anyBatch ?st ?s2"
    by (rule reachableBy.contentChange) (simp add: anyBatch_def)
  have d2: "data ?s2 = [newPair (pos 0 0) (pos 0 1), decorate (newPair (pos 0 5) (pos 0 6))]"
    unfolding typed_first_pair
    by (simp add: update_defs example_defs position_defs delta_defs decoration_defs)
  have "\<not> properlyNested (data ?s2)"
    unfolding d2 by (simp add: example_defs position_defs decorate_def)
  moreover have "map ends (data ?s2) = [(pos 0 0, pos 0 1), (pos 0 5, pos 0 6)]"
    unfolding d2 by (simp add: ends_def example_defs decorate_def)
  ultimately show ?thesis using r2 by blast
qed

end
